theory Spec2Isabelle
  imports Main
begin

section \<open>Symbolic operators and noncommutative monomials\<close>

text \<open>
  The notebook \<^verbatim>\<open>generating-noncommutative-monomials.ipynb\<close> builds its monomials from
  the operators of a symbolic-algebra library: \<^verbatim>\<open>HermitianOperator('X0')\<close> is a
  generator whose attribute \<^verbatim>\<open>is_hermitian\<close> holds, \<^verbatim>\<open>Operator('A')\<close> one for which
  it does not. A generator is its name together with that attribute; two generators are
  the same exactly when both agree.
\<close>

datatype generator = Generator (name: string) (is_hermitian: bool)

text \<open>
  A factor of a product is a generator or the conjugate of a generator.
  \<^verbatim>\<open>Dagger(var)\<close> of a Hermitian operator is the operator itself; of any other
  operator it is a symbol of its own.
\<close>

datatype factor = Sym generator | Adjoint generator

fun Dagger :: "generator \<Rightarrow> factor" where
  "Dagger g = (if is_hermitian g then Sym g else Adjoint g)"

text \<open>
  A product of noncommuting operators is compared structurally by the library: no
  commutation, idempotency or cancellation is applied, and adjacent equal factors are
  only displayed as a power. Such a product is the word of its factors, read from left
  to right; \<^verbatim>\<open>S.One\<close> is the empty word.
\<close>

type_synonym monomial = "factor list"

definition S_One :: monomial where
  "S_One = []"

text \<open>
  The list \<^verbatim>\<open>_variables\<close> is a copy of the input with the integer \<^verbatim>\<open>1\<close> inserted at
  position \<^verbatim>\<open>0\<close>, so its elements are that integer or a generator.
\<close>

datatype variable = IntOne | Op generator

text \<open>\<^verbatim>\<open>var * new_var\<close>: the factor goes to the left of the existing monomial.\<close>

fun times_var :: "variable \<Rightarrow> monomial \<Rightarrow> monomial" where
  "times_var IntOne new_var = new_var"
| "times_var (Op g) new_var = Sym g # new_var"

text \<open>
  The body of the innermost loop:
  \<^verbatim>\<open>
  temp.append(var * new_var)
  if var != 1 and not var.is_hermitian:
      temp.append(Dagger(var) * new_var)
  \<close>
\<close>

fun append_products :: "variable \<Rightarrow> monomial \<Rightarrow> monomial list \<Rightarrow> monomial list" where
  "append_products IntOne new_var temp = temp @ [times_var IntOne new_var]"
| "append_products (Op g) new_var temp =
     (if \<not> is_hermitian g
      then (temp @ [times_var (Op g) new_var]) @ [Dagger g # new_var]
      else temp @ [times_var (Op g) new_var])"

text \<open>\<^verbatim>\<open>for new_var in ncmonomials: ...\<close>\<close>

fun inner_loop :: "variable \<Rightarrow> monomial list \<Rightarrow> monomial list \<Rightarrow> monomial list" where
  "inner_loop var [] temp = temp"
| "inner_loop var (new_var # rest) temp =
     inner_loop var rest (append_products var new_var temp)"

text \<open>\<^verbatim>\<open>for var in _variables: for new_var in ncmonomials: ...\<close>\<close>

fun outer_loop :: "variable list \<Rightarrow> monomial list \<Rightarrow> monomial list \<Rightarrow> monomial list" where
  "outer_loop [] ncmonomials temp = temp"
| "outer_loop (var # rest) ncmonomials temp =
     outer_loop rest ncmonomials (inner_loop var ncmonomials temp)"

text \<open>
  \<^verbatim>\<open>unique(seq)\<close> walks the sequence with a dictionary \<^verbatim>\<open>seen\<close> of the items met so
  far and a list \<^verbatim>\<open>result\<close> that receives each item the first time it is met.
\<close>

fun unique_loop :: "'a list \<Rightarrow> ('a \<rightharpoonup> nat) \<Rightarrow> 'a list \<Rightarrow> 'a list" where
  "unique_loop [] seen result = result"
| "unique_loop (item # seq) seen result =
     (if seen item \<noteq> None then unique_loop seq seen result
      else unique_loop seq (seen(item \<mapsto> 1)) (result @ [item]))"

definition unique :: "'a list \<Rightarrow> 'a list" where
  "unique seq = unique_loop seq Map.empty []"

text \<open>
  \<^verbatim>\<open>for _ in range(degree): temp = []; ...; ncmonomials = unique(temp[:])\<close>,
  the argument counting the rounds that remain.
\<close>

fun degree_loop :: "nat \<Rightarrow> variable list \<Rightarrow> monomial list \<Rightarrow> monomial list" where
  "degree_loop 0 vs ncmonomials = ncmonomials"
| "degree_loop (Suc k) vs ncmonomials =
     degree_loop k vs (unique (outer_loop vs ncmonomials []))"

text \<open>
  \<^verbatim>\<open>get_ncmonomials(variables, degree)\<close>. The degree is a Python integer;
  \<^verbatim>\<open>range(degree)\<close> is empty when it is negative, so the loop runs \<open>nat degree\<close> times.
\<close>

definition get_ncmonomials :: "generator list \<Rightarrow> int \<Rightarrow> monomial list" where
  "get_ncmonomials variables degree =
     (if variables = [] then [S_One]
      else degree_loop (nat degree) (IntOne # map Op variables) [S_One])"

section \<open>Reference notions\<close>

text \<open>
  The multiplication choices a list of generators offers: every generator, and the
  conjugate of every generator that is not Hermitian.
\<close>

definition choices :: "generator list \<Rightarrow> factor set" where
  "choices variables =
     Sym ` set variables \<union> Dagger ` {g \<in> set variables. \<not> is_hermitian g}"

text \<open>The monomials of degree at most \<open>d\<close> over these choices.\<close>

definition monomials_upto :: "generator list \<Rightarrow> nat \<Rightarrow> monomial set" where
  "monomials_upto variables d = {m. set m \<subseteq> choices variables \<and> length m \<le> d}"

text \<open>
  Stable deduplication: every element is kept at its first occurrence and dropped at
  the later ones.
\<close>

primrec first_occurrences :: "'a list \<Rightarrow> 'a list" where
  "first_occurrences [] = []"
| "first_occurrences (x # xs) = x # filter (\<lambda>y. y \<noteq> x) (first_occurrences xs)"


text \<open>
  What one pass of the innermost loop body appends for a variable and an existing
  monomial: \<open>1 * m\<close> is \<open>m\<close>; a Hermitian generator gives \<open>g * m\<close>; any other
  generator gives \<open>g * m\<close> and then \<open>Dagger(g) * m\<close>.
\<close>

fun products :: "variable \<Rightarrow> monomial \<Rightarrow> monomial list" where
  "products IntOne m = [m]"
| "products (Op g) m =
     (if is_hermitian g then [Sym g # m] else [Sym g # m, Dagger g # m])"

text \<open>
  The sequence of one round, written with the loops of the code: the outer one over the
  integer \<open>1\<close> followed by the generators in input order, the inner one over the existing
  monomials.
\<close>

definition round_sequence :: "generator list \<Rightarrow> monomial list \<Rightarrow> monomial list" where
  "round_sequence variables working =
     concat (map (\<lambda>var. concat (map (products var) working)) (IntOne # map Op variables))"

text \<open>Every monomial of a set with one more factor on its left, and on its right.\<close>

definition extend :: "generator list \<Rightarrow> monomial set \<Rightarrow> monomial set" where
  "extend variables M = {f # m | f m. f \<in> choices variables \<and> m \<in> M}"

definition extend_right :: "generator list \<Rightarrow> monomial set \<Rightarrow> monomial set" where
  "extend_right variables M = {m @ [f] | f m. f \<in> choices variables \<and> m \<in> M}"

text \<open>
  The round as the specification words it: the outer loop over the existing monomials,
  the inner loop over the generators in input order, each product formed as \<open>m \<cdot> g\<close>
  and, when \<open>g\<close> is not Hermitian, followed by \<open>m \<cdot> conjugate(g)\<close>.
\<close>

fun spec_products :: "monomial \<Rightarrow> generator \<Rightarrow> monomial list" where
  "spec_products m g =
     (if is_hermitian g then [m @ [Sym g]] else [m @ [Sym g], m @ [Dagger g]])"

definition spec_round_sequence :: "generator list \<Rightarrow> monomial list \<Rightarrow> monomial list" where
  "spec_round_sequence variables working =
     concat (map (\<lambda>m. concat (map (spec_products m) variables)) working)"

text \<open>
  The operators of the notebook: \<^verbatim>\<open>X = [HermitianOperator('X%s' % i) for i in range(2)]\<close>
  and \<^verbatim>\<open>A = Operator('A')\<close>.
\<close>

definition X0 :: generator where
  "X0 = Generator ''X0'' True"

definition X1 :: generator where
  "X1 = Generator ''X1'' True"

definition op_A :: generator where
  "op_A = Generator ''A'' False"

section \<open>The deduplication\<close>

lemma unique_loop_eq:
  "unique_loop seq seen result =
     result @ filter (\<lambda>y. seen y = None) (first_occurrences seq)"
proof (induction seq arbitrary: seen result)
  case Nil
  show ?case by simp
next
  case (Cons item seq)
  show ?case
  proof (cases "seen item = None")
    case True
    have "unique_loop (item # seq) seen result =
          unique_loop seq (seen(item \<mapsto> 1)) (result @ [item])"
      using True by simp
    also have "\<dots> = (result @ [item]) @
          filter (\<lambda>y. (seen(item \<mapsto> 1)) y = None) (first_occurrences seq)"
      by (rule Cons.IH)
    also have "filter (\<lambda>y. (seen(item \<mapsto> 1)) y = None) (first_occurrences seq) =
          filter (\<lambda>y. seen y = None) (filter (\<lambda>y. y \<noteq> item) (first_occurrences seq))"
      by (auto intro: filter_cong)
    finally show ?thesis
      using True by simp
  next
    case False
    have "filter (\<lambda>y. seen y = None) (filter (\<lambda>y. y \<noteq> item) (first_occurrences seq)) =
          filter (\<lambda>y. seen y = None) (first_occurrences seq)"
      using False by (auto intro: filter_cong)
    with False Cons.IH [of seen result] show ?thesis
      by simp
  qed
qed

lemma unique_first_occurrences: "unique seq = first_occurrences seq"
  by (simp add: unique_def unique_loop_eq)

lemma set_first_occurrences: "set (first_occurrences xs) = set xs"
  by (induction xs) auto

lemma distinct_first_occurrences: "distinct (first_occurrences xs)"
  by (induction xs) (auto simp: set_first_occurrences)

lemma first_occurrences_distinct: "distinct xs \<Longrightarrow> first_occurrences xs = xs"
proof (induction xs)
  case Nil
  show ?case by simp
next
  case (Cons x xs)
  then have "filter (\<lambda>y. y \<noteq> x) xs = xs"
    by (auto intro: filter_True)
  with Cons show ?case by simp
qed

lemma set_unique: "set (unique seq) = set seq"
  by (simp add: unique_first_occurrences set_first_occurrences)

lemma distinct_unique: "distinct (unique seq)"
  by (simp add: unique_first_occurrences distinct_first_occurrences)

lemma unique_Cons: "unique (x # xs) = x # filter (\<lambda>y. y \<noteq> x) (unique xs)"
  by (simp add: unique_first_occurrences)

section \<open>The loops as sequences\<close>

lemma append_products_eq: "append_products var new_var temp = temp @ products var new_var"
  by (cases var) simp_all

lemma inner_loop_eq:
  "inner_loop var ncmonomials temp = temp @ concat (map (products var) ncmonomials)"
  by (induction ncmonomials arbitrary: temp) (simp_all add: append_products_eq)

lemma outer_loop_eq:
  "outer_loop vs ncmonomials temp =
     temp @ concat (map (\<lambda>var. concat (map (products var) ncmonomials)) vs)"
  by (induction vs arbitrary: temp) (simp_all add: inner_loop_eq)

lemma set_round:
  "set (outer_loop (IntOne # map Op variables) ncmonomials []) =
     set ncmonomials \<union> extend variables (set ncmonomials)"
  unfolding outer_loop_eq extend_def choices_def
  by (auto split: if_splits)

lemma monomials_upto_0: "monomials_upto variables 0 = {S_One}"
  by (auto simp: monomials_upto_def S_One_def)

lemma monomials_upto_Suc:
  "monomials_upto variables (Suc d) =
     monomials_upto variables d \<union> extend variables (monomials_upto variables d)"
proof (rule set_eqI)
  fix m
  show "m \<in> monomials_upto variables (Suc d) \<longleftrightarrow>
        m \<in> monomials_upto variables d \<union> extend variables (monomials_upto variables d)"
    by (cases m) (auto simp: monomials_upto_def extend_def)
qed

lemma set_degree_loop:
  "set ncmonomials = monomials_upto variables j \<Longrightarrow>
   set (degree_loop k (IntOne # map Op variables) ncmonomials) = monomials_upto variables (j + k)"
proof (induction k arbitrary: ncmonomials j)
  case 0
  then show ?case by simp
next
  case (Suc k)
  have "set (unique (outer_loop (IntOne # map Op variables) ncmonomials [])) =
        monomials_upto variables (Suc j)"
    by (simp only: set_unique set_round Suc.prems monomials_upto_Suc)
  from Suc.IH [OF this] show ?case by simp
qed

lemma choices_Nil: "choices [] = {}"
  by (simp add: choices_def)

lemma monomials_upto_Nil: "monomials_upto [] d = {S_One}"
  by (auto simp: monomials_upto_def choices_Nil S_One_def)

lemma set_get_ncmonomials:
  "set (get_ncmonomials variables degree) = monomials_upto variables (nat degree)"
proof (cases "variables = []")
  case True
  then show ?thesis by (simp add: get_ncmonomials_def monomials_upto_Nil)
next
  case False
  have "set [S_One] = monomials_upto variables 0"
    by (simp add: monomials_upto_0)
  from set_degree_loop [OF this, of "nat degree"] False show ?thesis
    by (simp add: get_ncmonomials_def)
qed

section \<open>Properties of the generated sequence\<close>

lemma set_get_ncmonomials_cong:
  "set variables = set variables' \<Longrightarrow>
   set (get_ncmonomials variables degree) = set (get_ncmonomials variables' degree)"
  by (simp add: set_get_ncmonomials monomials_upto_def choices_def)

lemma degree_loop_distinct:
  "distinct ncmonomials \<Longrightarrow> distinct (degree_loop k vs ncmonomials)"
  by (induction k arbitrary: ncmonomials) (simp_all add: distinct_unique)

lemma distinct_get_ncmonomials: "distinct (get_ncmonomials variables degree)"
  by (simp add: get_ncmonomials_def degree_loop_distinct)

lemma round_sequence_eq:
  "outer_loop (IntOne # map Op variables) ncmonomials [] = round_sequence variables ncmonomials"
  by (simp only: outer_loop_eq round_sequence_def append_Nil)

lemma round_sequence_head:
  "\<exists>rest. round_sequence variables (S_One # ms) = S_One # rest"
  by (simp add: round_sequence_def)

lemma degree_loop_head:
  "\<exists>rest. degree_loop k (IntOne # map Op variables) (S_One # ms) = S_One # rest"
proof (induction k arbitrary: ms)
  case 0
  show ?case by simp
next
  case (Suc k)
  obtain rest where r: "round_sequence variables (S_One # ms) = S_One # rest"
    using round_sequence_head by blast
  have "degree_loop (Suc k) (IntOne # map Op variables) (S_One # ms) =
        degree_loop k (IntOne # map Op variables)
          (S_One # filter (\<lambda>y. y \<noteq> S_One) (unique rest))"
    by (simp only: degree_loop.simps round_sequence_eq r unique_Cons)
  with Suc.IH show ?case by simp
qed

lemma get_ncmonomials_head: "\<exists>rest. get_ncmonomials variables degree = S_One # rest"
  using degree_loop_head [of "nat degree" variables "[]"]
  by (simp add: get_ncmonomials_def)

lemma degree_loop_Suc_last:
  "degree_loop (Suc k) vs ncmonomials =
     unique (outer_loop vs (degree_loop k vs ncmonomials) [])"
  by (induction k arbitrary: ncmonomials) simp_all

lemma get_ncmonomials_next:
  assumes "0 \<le> degree"
  shows "get_ncmonomials variables (degree + 1) =
         first_occurrences (round_sequence variables (get_ncmonomials variables degree))"
proof (cases "variables = []")
  case True
  then show ?thesis
    by (simp add: get_ncmonomials_def round_sequence_def)
next
  case False
  from assms have "nat (degree + 1) = Suc (nat degree)"
    by simp
  with False show ?thesis
    by (simp only: get_ncmonomials_def if_False degree_loop_Suc_last round_sequence_eq
        unique_first_occurrences)
qed

lemma monomials_upto_Suc_One:
  "monomials_upto variables (Suc d) =
     {S_One} \<union> extend variables (monomials_upto variables d)"
proof (rule set_eqI)
  fix m
  show "m \<in> monomials_upto variables (Suc d) \<longleftrightarrow>
        m \<in> {S_One} \<union> extend variables (monomials_upto variables d)"
    by (cases m) (auto simp: monomials_upto_def extend_def S_One_def)
qed

lemma monomials_upto_Suc_right:
  "monomials_upto variables (Suc d) =
     {S_One} \<union> extend_right variables (monomials_upto variables d)"
proof (rule set_eqI)
  fix m
  show "m \<in> monomials_upto variables (Suc d) \<longleftrightarrow>
        m \<in> {S_One} \<union> extend_right variables (monomials_upto variables d)"
    by (cases m rule: rev_cases) (auto simp: monomials_upto_def extend_right_def S_One_def)
qed

lemma monomials_upto_mono: "monomials_upto variables d \<subseteq> monomials_upto variables (Suc d)"
  by (auto simp: monomials_upto_def)

lemma first_round:
  "round_sequence variables [S_One] =
     S_One # concat (map (\<lambda>g. products (Op g) S_One) variables)"
  by (simp add: round_sequence_def comp_def)

lemma get_ncmonomials_1:
  "get_ncmonomials variables 1 =
     unique (S_One # concat (map (\<lambda>g. products (Op g) S_One) variables))"
proof (cases "variables = []")
  case True
  then show ?thesis by (simp add: get_ncmonomials_def unique_def)
next
  case False
  then show ?thesis
    by (simp add: get_ncmonomials_def round_sequence_eq first_round del: outer_loop.simps)
qed

lemma hermitian_products:
  "\<forall>g \<in> set variables. is_hermitian g \<Longrightarrow>
   concat (map (\<lambda>g. products (Op g) S_One) variables) = map (\<lambda>g. [Sym g]) variables"
  by (induction variables) (simp_all add: S_One_def)

lemma non_hermitian_products:
  "\<forall>g \<in> set variables. \<not> is_hermitian g \<Longrightarrow>
   concat (map (\<lambda>g. products (Op g) S_One) variables) =
     concat (map (\<lambda>g. [[Sym g], [Dagger g]]) variables)"
  by (induction variables) (simp_all add: S_One_def)

lemma distinct_generators:
  "distinct variables \<Longrightarrow> distinct (S_One # map (\<lambda>g. [Sym g]) variables)"
  by (auto simp: distinct_map S_One_def inj_on_def)

lemma distinct_conjugates:
  "distinct variables \<Longrightarrow> \<forall>g \<in> set variables. \<not> is_hermitian g \<Longrightarrow>
   distinct (S_One # concat (map (\<lambda>g. [[Sym g], [Dagger g]]) variables))"
  by (induction variables) (auto simp: S_One_def)

lemma length_conjugates:
  "length (concat (map (\<lambda>g. [[Sym g], [Dagger g]]) variables)) = 2 * length variables"
  by (induction variables) simp_all

section \<open>The claims\<close>

text \<open>
  Claim C1: for every ordered list of generators, each tagged Hermitian or not, and
  every degree \<open>d \<ge> 0\<close>, \<open>get_ncmonomials\<close> returns, as a set, exactly the monomials of
  degree at most \<open>d\<close> whose factors are generators of the list or conjugates of its
  non-Hermitian generators; a Hermitian generator contributes only itself.
\<close>

theorem get_ncmonomials_exact:
  "0 \<le> degree \<Longrightarrow>
   set (get_ncmonomials variables degree) =
     {m. set m \<subseteq> Sym ` set variables \<union> Dagger ` {g \<in> set variables. \<not> is_hermitian g}
         \<and> int (length m) \<le> degree}"
proof -
  assume d: "0 \<le> degree"
  have "set (get_ncmonomials variables degree) = monomials_upto variables (nat degree)"
    by (rule set_get_ncmonomials)
  also have "\<dots> = {m. set m \<subseteq> choices variables \<and> int (length m) \<le> degree}"
    using d by (auto simp: monomials_upto_def)
  finally show ?thesis
    by (simp add: choices_def)
qed

theorem get_ncmonomials_exact_witness:
  "(0::int) \<le> 1 \<and>
   {m. set m \<subseteq> Sym ` set [op_A] \<union> Dagger ` {g \<in> set [op_A]. \<not> is_hermitian g}
       \<and> int (length m) \<le> 1} = {S_One, [Sym op_A], [Adjoint op_A]}"
  using get_ncmonomials_exact [of 1 "[op_A]"]
  by (simp add: get_ncmonomials_def unique_def S_One_def op_A_def)

text \<open>
  Claim C2: in each round the new products are formed as \<open>m \<cdot> g\<close> (and
  \<open>m \<cdot> conjugate(g)\<close> when \<open>g\<close> is not Hermitian), the temporary sequence is produced
  with the outer loop over the existing monomials and the inner loop over the
  generators, and the working set is the stable first-occurrence deduplication of that
  sequence. The code forms \<open>var * new_var\<close> instead, the variable on the left, with the
  outer loop over the integer \<open>1\<close> followed by the generators and the inner loop over
  the existing monomials. What holds: the working set after one more round is the
  stable first-occurrence deduplication of the sequence produced in that order, and
  that sequence is the one the loops build.
\<close>

theorem get_ncmonomials_round:
  "0 \<le> degree \<Longrightarrow>
   outer_loop (IntOne # map Op variables) (get_ncmonomials variables degree) [] =
     concat (map (\<lambda>var. concat (map (products var) (get_ncmonomials variables degree)))
       (IntOne # map Op variables)) \<and>
   get_ncmonomials variables (degree + 1) =
     first_occurrences
       (concat (map (\<lambda>var. concat (map (products var) (get_ncmonomials variables degree)))
         (IntOne # map Op variables)))"
  using get_ncmonomials_next [of degree variables]
  by (simp only: round_sequence_eq round_sequence_def simp_thms)

theorem get_ncmonomials_round_witness:
  "(0::int) \<le> 1 \<and>
   first_occurrences
     (concat (map (\<lambda>var. concat (map (products var) (get_ncmonomials [op_A] 1)))
       (IntOne # map Op [op_A]))) =
   [S_One, [Sym op_A], [Adjoint op_A], [Sym op_A, Sym op_A], [Adjoint op_A, Sym op_A],
    [Sym op_A, Adjoint op_A], [Adjoint op_A, Adjoint op_A]]"
proof -
  have "get_ncmonomials [op_A] (1 + 1) =
    [S_One, [Sym op_A], [Adjoint op_A], [Sym op_A, Sym op_A], [Adjoint op_A, Sym op_A],
     [Sym op_A, Adjoint op_A], [Adjoint op_A, Adjoint op_A]]"
    by (simp add: get_ncmonomials_def unique_def S_One_def op_A_def numeral_2_eq_2)
  with get_ncmonomials_round [of 1 "[op_A]"] show ?thesis
    by (simp only: simp_thms zero_le_one)
qed

text \<open>
  With the non-Hermitian operator \<open>A\<close> and the working set \<open>[1, A, Dagger(A)]\<close> of degree
  one, the loops of the code and the loops of the claim produce different sequences, and
  their deduplications differ as well, also when the identity the code keeps is left
  out: the code lists \<open>Dagger(A) * A\<close> before \<open>A * Dagger(A)\<close>.
\<close>

theorem round_order_counterexample:
  "outer_loop (IntOne # map Op [op_A]) (get_ncmonomials [op_A] 1) [] \<noteq>
     spec_round_sequence [op_A] (get_ncmonomials [op_A] 1) \<and>
   get_ncmonomials [op_A] 2 \<noteq>
     first_occurrences (spec_round_sequence [op_A] (get_ncmonomials [op_A] 1)) \<and>
   filter (\<lambda>m. m \<noteq> S_One) (get_ncmonomials [op_A] 2) \<noteq>
     first_occurrences (spec_round_sequence [op_A] (get_ncmonomials [op_A] 1)) \<and>
   get_ncmonomials [op_A] 2 =
     [S_One, [Sym op_A], [Adjoint op_A], [Sym op_A, Sym op_A], [Adjoint op_A, Sym op_A],
      [Sym op_A, Adjoint op_A], [Adjoint op_A, Adjoint op_A]] \<and>
   first_occurrences (spec_round_sequence [op_A] (get_ncmonomials [op_A] 1)) =
     [[Sym op_A], [Adjoint op_A], [Sym op_A, Sym op_A], [Sym op_A, Adjoint op_A],
      [Adjoint op_A, Sym op_A], [Adjoint op_A, Adjoint op_A]]"
  by (simp add: get_ncmonomials_def unique_def S_One_def op_A_def numeral_2_eq_2
      spec_round_sequence_def)

text \<open>
  Claim C3: a negative degree is rejected at once with an invalid-argument condition and
  no normal result. The code has no such check: \<open>range(degree)\<close> is empty for a negative
  degree, so no round runs and the one-element sequence \<open>[S.One]\<close> is returned as a
  normal result.
\<close>

theorem get_ncmonomials_negative:
  "degree < 0 \<Longrightarrow> get_ncmonomials variables degree = [S_One]"
  by (simp add: get_ncmonomials_def)

theorem get_ncmonomials_negative_witness:
  "(-1::int) < 0 \<and> get_ncmonomials [X0, X1] (-1) = [S_One]"
  using get_ncmonomials_negative [of "-1" "[X0, X1]"] by simp

theorem negative_degree_counterexample:
  "get_ncmonomials [X0] (-1) = [S_One]"
  by (simp add: get_ncmonomials_def)

text \<open>
  Claim C4: for every generator list and every degree \<open>d \<ge> 0\<close>, the returned sequence has
  no duplicate monomial and its first element is the identity monomial.
\<close>

theorem get_ncmonomials_distinct_identity_first:
  "0 \<le> degree \<Longrightarrow>
   distinct (get_ncmonomials variables degree) \<and>
   get_ncmonomials variables degree \<noteq> [] \<and>
   hd (get_ncmonomials variables degree) = S_One"
proof -
  obtain rest where "get_ncmonomials variables degree = S_One # rest"
    using get_ncmonomials_head by blast
  then show ?thesis
    using distinct_get_ncmonomials [of variables degree] by simp
qed

theorem get_ncmonomials_distinct_identity_first_witness:
  "(0::int) \<le> 2 \<and>
   distinct (get_ncmonomials [X0, op_A] 2) \<and>
   get_ncmonomials [X0, op_A] 2 \<noteq> [] \<and>
   hd (get_ncmonomials [X0, op_A] 2) = S_One"
  using get_ncmonomials_distinct_identity_first [of 2 "[X0, op_A]"] by simp

text \<open>
  Claim C5: for every generator list and every degree \<open>d \<ge> 1\<close>, the basis at degree \<open>d\<close>
  contains, as a set, the basis at degree \<open>d - 1\<close>; and it is the identity monomial
  together with the monomials of degree \<open>d - 1\<close> multiplied by each generator or
  conjugate, on the left as the code does it and equally on the right.
\<close>

theorem get_ncmonomials_monotone:
  "1 \<le> degree \<Longrightarrow>
   set (get_ncmonomials variables (degree - 1)) \<subseteq> set (get_ncmonomials variables degree) \<and>
   set (get_ncmonomials variables degree) =
     {S_One} \<union> extend variables (set (get_ncmonomials variables (degree - 1))) \<and>
   set (get_ncmonomials variables degree) =
     {S_One} \<union> extend_right variables (set (get_ncmonomials variables (degree - 1)))"
proof -
  assume "1 \<le> degree"
  then have d: "nat degree = Suc (nat (degree - 1))"
    by simp
  show ?thesis
    unfolding set_get_ncmonomials d
    using monomials_upto_mono [of variables "nat (degree - 1)"]
      monomials_upto_Suc_One [of variables "nat (degree - 1)"]
      monomials_upto_Suc_right [of variables "nat (degree - 1)"]
    by blast
qed

theorem get_ncmonomials_monotone_witness:
  "(1::int) \<le> 2 \<and>
   set (get_ncmonomials [X0, X1] (2 - 1)) \<subseteq> set (get_ncmonomials [X0, X1] 2) \<and>
   set (get_ncmonomials [X0, X1] 2) =
     {S_One} \<union> extend [X0, X1] (set (get_ncmonomials [X0, X1] (2 - 1))) \<and>
   set (get_ncmonomials [X0, X1] 2) =
     {S_One} \<union> extend_right [X0, X1] (set (get_ncmonomials [X0, X1] (2 - 1)))"
proof -
  have h: "(1::int) \<le> 2"
    by simp
  from get_ncmonomials_monotone [OF h, of "[X0, X1]"] h show ?thesis
    by blast
qed

text \<open>
  Claim C6: for every list of \<open>n\<close> pairwise distinct Hermitian generators and degree 1,
  the result has exactly \<open>n + 1\<close> elements: the identity and each generator once, with no
  conjugate.
\<close>

theorem get_ncmonomials_hermitian_degree_1:
  "distinct variables \<Longrightarrow> \<forall>g \<in> set variables. is_hermitian g \<Longrightarrow>
   get_ncmonomials variables 1 = S_One # map (\<lambda>g. [Sym g]) variables \<and>
   length (get_ncmonomials variables 1) = length variables + 1"
proof -
  assume d: "distinct variables" and h: "\<forall>g \<in> set variables. is_hermitian g"
  have "get_ncmonomials variables 1 = first_occurrences (S_One # map (\<lambda>g. [Sym g]) variables)"
    by (simp only: get_ncmonomials_1 hermitian_products [OF h] unique_first_occurrences)
  also have "\<dots> = S_One # map (\<lambda>g. [Sym g]) variables"
    by (rule first_occurrences_distinct) (rule distinct_generators [OF d])
  finally show ?thesis by simp
qed

theorem get_ncmonomials_hermitian_degree_1_witness:
  "distinct [X0, X1] \<and> is_hermitian X0 \<and> is_hermitian X1 \<and>
   get_ncmonomials [X0, X1] 1 = [S_One, [Sym X0], [Sym X1]] \<and>
   length (get_ncmonomials [X0, X1] 1) = 3"
proof -
  have d: "distinct [X0, X1]"
    by (simp add: X0_def X1_def)
  have h: "\<forall>g \<in> set [X0, X1]. is_hermitian g"
    by (simp add: X0_def X1_def)
  from get_ncmonomials_hermitian_degree_1 [OF d h] d h show ?thesis
    by simp
qed

text \<open>
  Claim C7: for every list of \<open>n\<close> pairwise distinct non-Hermitian generators and degree
  1, the result has exactly \<open>2n + 1\<close> elements: the identity, each generator and each
  conjugate, all of them distinct.
\<close>

theorem get_ncmonomials_non_hermitian_degree_1:
  "distinct variables \<Longrightarrow> \<forall>g \<in> set variables. \<not> is_hermitian g \<Longrightarrow>
   get_ncmonomials variables 1 =
     S_One # concat (map (\<lambda>g. [[Sym g], [Dagger g]]) variables) \<and>
   length (get_ncmonomials variables 1) = 2 * length variables + 1 \<and>
   distinct (get_ncmonomials variables 1)"
proof -
  assume d: "distinct variables" and h: "\<forall>g \<in> set variables. \<not> is_hermitian g"
  have "get_ncmonomials variables 1 =
        first_occurrences (S_One # concat (map (\<lambda>g. [[Sym g], [Dagger g]]) variables))"
    by (simp only: get_ncmonomials_1 non_hermitian_products [OF h] unique_first_occurrences)
  also have "\<dots> = S_One # concat (map (\<lambda>g. [[Sym g], [Dagger g]]) variables)"
    by (rule first_occurrences_distinct) (rule distinct_conjugates [OF d h])
  finally have e: "get_ncmonomials variables 1 =
      S_One # concat (map (\<lambda>g. [[Sym g], [Dagger g]]) variables)" .
  have "length (get_ncmonomials variables 1) = 2 * length variables + 1"
    by (simp only: e list.size length_conjugates)
  with e distinct_get_ncmonomials [of variables 1] show ?thesis
    by simp
qed

theorem get_ncmonomials_non_hermitian_degree_1_witness:
  "distinct [op_A] \<and> \<not> is_hermitian op_A \<and>
   get_ncmonomials [op_A] 1 = [S_One, [Sym op_A], [Adjoint op_A]] \<and>
   length (get_ncmonomials [op_A] 1) = 3"
proof -
  have d: "distinct [op_A]"
    by simp
  have h: "\<forall>g \<in> set [op_A]. \<not> is_hermitian g"
    by (simp add: op_A_def)
  from get_ncmonomials_non_hermitian_degree_1 [OF d h] h show ?thesis
    by simp
qed

text \<open>
  Claim C8: for the two Hermitian generators \<open>X0\<close>, \<open>X1\<close> and degree 2 the output is, as a
  set, exactly the seven monomials \<open>1\<close>, \<open>X0\<close>, \<open>X1\<close>, \<open>X0\<^sup>2\<close>, \<open>X0 X1\<close>, \<open>X1 X0\<close>, \<open>X1\<^sup>2\<close>, where
  \<open>X0 X1\<close> and \<open>X1 X0\<close> are different monomials.
\<close>

theorem get_ncmonomials_X_2:
  "set (get_ncmonomials [X0, X1] 2) =
     {S_One, [Sym X0], [Sym X1], [Sym X0, Sym X0], [Sym X0, Sym X1], [Sym X1, Sym X0],
      [Sym X1, Sym X1]} \<and>
   card (set (get_ncmonomials [X0, X1] 2)) = 7 \<and>
   [Sym X0, Sym X1] \<noteq> [Sym X1, Sym X0]"
proof -
  have e: "get_ncmonomials [X0, X1] 2 =
     [S_One, [Sym X0], [Sym X1], [Sym X0, Sym X0], [Sym X0, Sym X1], [Sym X1, Sym X0],
      [Sym X1, Sym X1]]"
    by (simp add: get_ncmonomials_def unique_def S_One_def X0_def X1_def numeral_2_eq_2)
  have "card (set (get_ncmonomials [X0, X1] 2)) = length (get_ncmonomials [X0, X1] 2)"
    by (rule distinct_card) (rule distinct_get_ncmonomials)
  also have "\<dots> = 7"
    by (simp only: e) simp
  finally have c: "card (set (get_ncmonomials [X0, X1] 2)) = 7" .
  have n: "[Sym X0, Sym X1] \<noteq> [Sym X1, Sym X0]"
    by (simp add: X0_def X1_def)
  from c n show ?thesis
    by (simp only: e) simp
qed

text \<open>
  Claim C9: for the empty generator list the result is exactly the one-element sequence
  \<open>[identity]\<close>, for every degree \<open>d \<ge> 0\<close>.
\<close>

theorem get_ncmonomials_no_generators:
  "0 \<le> degree \<Longrightarrow> get_ncmonomials [] degree = [S_One]"
  by (simp add: get_ncmonomials_def)

theorem get_ncmonomials_no_generators_witness:
  "(0::int) \<le> 5 \<and> get_ncmonomials [] 5 = [S_One]"
  using get_ncmonomials_no_generators [of 5] by simp

text \<open>
  Claim C10: when a generator occurs more than once in the input list, the result is, as
  a set, the one obtained from the list with the repeated occurrence removed, for every
  degree \<open>d \<ge> 0\<close>; the deduplication absorbs the repetition, so the basis is not larger
  either. The same holds with every repetition removed.
\<close>

theorem get_ncmonomials_repeated_generator:
  "0 \<le> degree \<Longrightarrow>
   set (get_ncmonomials (xs @ g # ys @ g # zs) degree) =
     set (get_ncmonomials (xs @ g # ys @ zs) degree) \<and>
   length (get_ncmonomials (xs @ g # ys @ g # zs) degree) =
     length (get_ncmonomials (xs @ g # ys @ zs) degree) \<and>
   set (get_ncmonomials variables degree) = set (get_ncmonomials (remdups variables) degree) \<and>
   length (get_ncmonomials variables degree) =
     length (get_ncmonomials (remdups variables) degree)"
proof -
  have s1: "set (get_ncmonomials (xs @ g # ys @ g # zs) degree) =
        set (get_ncmonomials (xs @ g # ys @ zs) degree)"
    by (rule set_get_ncmonomials_cong) auto
  have s2: "set (get_ncmonomials variables degree) =
        set (get_ncmonomials (remdups variables) degree)"
    by (rule set_get_ncmonomials_cong) simp
  have len: "length (get_ncmonomials vs degree) = card (set (get_ncmonomials vs degree))" for vs
    by (rule distinct_card [symmetric]) (rule distinct_get_ncmonomials)
  show ?thesis
    by (simp only: len s1 s2 simp_thms)
qed

theorem get_ncmonomials_repeated_generator_witness:
  "(0::int) \<le> 2 \<and>
   set (get_ncmonomials [X0, X1, X0] 2) = set (get_ncmonomials [X0, X1] 2) \<and>
   length (get_ncmonomials [X0, X1, X0] 2) = length (get_ncmonomials [X0, X1] 2)"
  using get_ncmonomials_repeated_generator [of 2 "[]" X0 "[X1]" "[]" "[]"] by simp

end
